theory Spec2Isabelle
  imports Main "HOL-Library.Sublist"
begin

text \<open>
  A model of the game generator's server module (\<open>back-end/server/main.js\<close>) and of
  the two generation routes of its Express server: the markdown sanitizer
  \<open>stripMarkdownCodeBlocks\<close>, the operations \<open>generateGame\<close>, \<open>chatWithCodeAssistant\<close>
  and \<open>generateGameStreaming\<close> with the module variable \<open>TheCleanCode\<close> they share, and
  the handlers of \<open>POST /api/generate\<close> and \<open>POST /api/generate-stream\<close>.
\<close>

section \<open>JavaScript strings\<close>

text \<open>
  A JavaScript string is a sequence of UTF-16 code units. The model uses \<open>string\<close>
  (a list of 8-bit \<open>char\<close>) and reads each \<open>char\<close> as the code unit with the same
  number, so it covers the texts whose code units lie in U+0000..U+00FF. On that range
  the classes used by the regular expressions and by \<open>trim\<close> are as follows.
\<close>

definition isWhiteSpace :: "char \<Rightarrow> bool" where
  \<comment> \<open>the class \<open>\s\<close>, also what \<open>String.prototype.trim\<close> strips: TAB, LF, VT, FF, CR, SP, NBSP\<close>
  "isWhiteSpace c \<longleftrightarrow>
     c = CHR 0x09 \<or> c = CHR 0x0A \<or> c = CHR 0x0B \<or> c = CHR 0x0C \<or> c = CHR 0x0D \<or>
     c = CHR 0x20 \<or> c = CHR 0xA0"

definition isLineTerminator :: "char \<Rightarrow> bool" where
  \<comment> \<open>where \<open>^\<close> and \<open>$\<close> match under the \<open>m\<close> flag: after or before LF or CR\<close>
  "isLineTerminator c \<longleftrightarrow> c = CHR 0x0A \<or> c = CHR 0x0D"

definition asciiLower :: "char \<Rightarrow> char" where
  \<comment> \<open>case folding of the \<open>i\<close> flag, as far as it can reach the letters of a pattern in a-z\<close>
  "asciiLower c =
     (let n = (of_char c :: nat) in if 65 \<le> n \<and> n \<le> 90 then char_of (n + 32) else c)"

definition trim :: "string \<Rightarrow> string" where
  "trim s = rev (dropWhile isWhiteSpace (rev (dropWhile isWhiteSpace s)))"

section \<open>The markdown sanitizer\<close>

text \<open>
  \<open>stripMarkdownCodeBlocks\<close> is a chain of six global \<open>replace\<close> calls and a \<open>trim\<close>.
  Each \<open>replace\<close> is modelled by a scanner that walks the input from left to right: at
  every position it tries the pattern; on a match it emits the replacement and goes on
  after the match, otherwise it copies one character and goes on at the next position.
  All six patterns match at least one character, so the rule for empty matches never
  applies. The quantifiers are greedy, and in each pattern giving back characters can
  never help (the character given back is not one the next item accepts), so the greedy
  match is the only candidate at a position.
\<close>

subsection \<open>Pass 1: opening fences\<close>

definition matchesIgnoreCase :: "string \<Rightarrow> string \<Rightarrow> bool" where
  "matchesIgnoreCase w s \<longleftrightarrow> map asciiLower (take (length w) s) = w"

definition skipLanguage :: "string \<Rightarrow> string" where
  \<comment> \<open>\<open>(?:javascript|js|typescript|ts)?\<close>: the first alternative that matches, or nothing\<close>
  "skipLanguage s =
     (case find (\<lambda>w. matchesIgnoreCase w s) [''javascript'', ''js'', ''typescript'', ''ts''] of
        Some w \<Rightarrow> drop (length w) s
      | None \<Rightarrow> s)"

function removeFenceStarts :: "string \<Rightarrow> string" where
  "removeFenceStarts [] = []"
| "removeFenceStarts (c # cs) =
     (if prefix ''```'' (c # cs)
      then removeFenceStarts (dropWhile isWhiteSpace (skipLanguage (drop 3 (c # cs))))
      else c # removeFenceStarts cs)"
  by pat_completeness auto
termination
proof (relation "measure length")
  fix c :: char and cs :: string
  assume "prefix ''```'' (c # cs)"
  have skip: "length (skipLanguage s) \<le> length s" for s
    by (simp add: skipLanguage_def split: option.splits)
  have "length (dropWhile isWhiteSpace (skipLanguage (drop 3 (c # cs))))
          \<le> length (skipLanguage (drop 3 (c # cs)))"
    by (rule length_dropWhile_le)
  also have "\<dots> \<le> length (drop 3 (c # cs))"
    by (rule skip)
  also have "\<dots> < length (c # cs)"
    by simp
  finally show "(dropWhile isWhiteSpace (skipLanguage (drop 3 (c # cs))), c # cs)
                  \<in> measure length"
    by simp
qed simp_all

subsection \<open>Pass 2: closing fences\<close>

function removeFenceEnds :: "string \<Rightarrow> string" where
  "removeFenceEnds [] = []"
| "removeFenceEnds (c # cs) =
     (if prefix ''```'' (dropWhile isWhiteSpace (c # cs))
      then removeFenceEnds (drop 3 (dropWhile isWhiteSpace (c # cs)))
      else c # removeFenceEnds cs)"
  by pat_completeness auto
termination
proof (relation "measure length")
  fix c :: char and cs :: string
  assume p: "prefix ''```'' (dropWhile isWhiteSpace (c # cs))"
  then have "3 \<le> length (dropWhile isWhiteSpace (c # cs))"
    using prefix_length_le by fastforce
  then have "length (drop 3 (dropWhile isWhiteSpace (c # cs)))
               < length (dropWhile isWhiteSpace (c # cs))"
    by simp
  also have "\<dots> \<le> length (c # cs)"
    by (rule length_dropWhile_le)
  finally show "(drop 3 (dropWhile isWhiteSpace (c # cs)), c # cs) \<in> measure length"
    by simp
qed simp_all

subsection \<open>Pass 3: bold markers\<close>

definition boldMatch :: "string \<Rightarrow> (string \<times> string) option" where
  \<comment> \<open>\<open>\*\*([^*]+)\*\*\<close> at the start of \<open>s\<close>: the captured group and the text after the match\<close>
  "boldMatch s =
     (let body = drop 2 s;
          inner = takeWhile (\<lambda>c. c \<noteq> CHR ''*'') body;
          rest = dropWhile (\<lambda>c. c \<noteq> CHR ''*'') body
      in if prefix ''**'' s \<and> inner \<noteq> [] \<and> prefix ''**'' rest
         then Some (inner, drop 2 rest) else None)"

function removeBold :: "string \<Rightarrow> string" where
  "removeBold [] = []"
| "removeBold (c # cs) =
     (case boldMatch (c # cs) of
        Some (inner, rest) \<Rightarrow> inner @ removeBold rest
      | None \<Rightarrow> c # removeBold cs)"
  by pat_completeness auto
termination
proof (relation "measure length")
  fix c :: char and cs inner rest :: string and x :: "string \<times> string"
  assume "boldMatch (c # cs) = Some x" and "(inner, rest) = x"
  then have r: "rest = drop 2 (dropWhile (\<lambda>c. c \<noteq> CHR ''*'') (drop 2 (c # cs)))"
    and p: "prefix ''**'' (c # cs)"
    by (auto simp: boldMatch_def Let_def split: if_splits)
  from p have "2 \<le> length (c # cs)"
    using prefix_length_le by fastforce
  moreover have "length rest \<le> length (drop 2 (c # cs))"
    unfolding r
    using length_dropWhile_le [of "\<lambda>c. c \<noteq> CHR ''*''" "drop 2 (c # cs)"] by simp
  ultimately show "(rest, c # cs) \<in> measure length"
    by simp
qed simp_all

subsection \<open>Pass 4: horizontal rules\<close>

text \<open>
  \<open>^\<close> looks at the character before the position in the input, so the scanner carries
  a flag: the position is the start of the input or follows a line terminator.
\<close>

function removeRules :: "bool \<Rightarrow> string \<Rightarrow> string" where
  "removeRules lineStart [] = []"
| "removeRules lineStart (c # cs) =
     (let hyphens = takeWhile (\<lambda>c. c = CHR ''-'') (c # cs);
          rest = dropWhile (\<lambda>c. c = CHR ''-'') (c # cs)
      in if lineStart \<and> 3 \<le> length hyphens \<and> (rest = [] \<or> isLineTerminator (hd rest))
         then removeRules False rest
         else c # removeRules (isLineTerminator c) cs)"
  by pat_completeness auto
termination
proof (relation "measure (\<lambda>(b, s). length s)")
  fix lineStart :: bool and c :: char and cs hyphens rest :: string
  assume h: "hyphens = takeWhile (\<lambda>c. c = CHR ''-'') (c # cs)"
    and r: "rest = dropWhile (\<lambda>c. c = CHR ''-'') (c # cs)"
    and m: "lineStart \<and> 3 \<le> length hyphens \<and> (rest = [] \<or> isLineTerminator (hd rest))"
  have "length hyphens + length rest = length (c # cs)"
    unfolding h r by (metis length_append takeWhile_dropWhile_id)
  with m show "((False, rest), lineStart, c # cs) \<in> measure (\<lambda>(b, s). length s)"
    by simp
qed simp_all

subsection \<open>Pass 5: heading markers\<close>

function removeHeadings :: "bool \<Rightarrow> string \<Rightarrow> string" where
  "removeHeadings lineStart [] = []"
| "removeHeadings lineStart (c # cs) =
     (if lineStart \<and> c = CHR ''#''
      then let afterHashes = dropWhile (\<lambda>c. c = CHR ''#'') cs;
               spaces = takeWhile isWhiteSpace afterHashes
           in removeHeadings (spaces \<noteq> [] \<and> isLineTerminator (last spaces))
                (dropWhile isWhiteSpace afterHashes)
      else c # removeHeadings (isLineTerminator c) cs)"
  by pat_completeness auto
termination
proof (relation "measure (\<lambda>(b, s). length s)")
  fix lineStart :: bool and c :: char and cs afterHashes spaces :: string
  assume a: "afterHashes = dropWhile (\<lambda>c. c = CHR ''#'') cs"
  have "length (dropWhile isWhiteSpace afterHashes) \<le> length afterHashes"
    by (rule length_dropWhile_le)
  also have "\<dots> \<le> length cs"
    unfolding a by (rule length_dropWhile_le)
  finally show "((spaces \<noteq> [] \<and> isLineTerminator (last spaces), dropWhile isWhiteSpace afterHashes),
                 lineStart, c # cs) \<in> measure (\<lambda>(b, s). length s)"
    by simp
qed simp_all

subsection \<open>Pass 6: runs of newlines\<close>

function collapseNewlines :: "string \<Rightarrow> string" where
  "collapseNewlines [] = []"
| "collapseNewlines (c # cs) =
     (if 3 \<le> length (takeWhile (\<lambda>c. c = CHR 0x0A) (c # cs))
      then CHR 0x0A # CHR 0x0A # collapseNewlines (dropWhile (\<lambda>c. c = CHR 0x0A) (c # cs))
      else c # collapseNewlines cs)"
  by pat_completeness auto
termination
proof (relation "measure length")
  fix c :: char and cs :: string
  assume "3 \<le> length (takeWhile (\<lambda>c. c = CHR 0x0A) (c # cs))"
  moreover have "length (takeWhile (\<lambda>c. c = CHR 0x0A) (c # cs))
                   + length (dropWhile (\<lambda>c. c = CHR 0x0A) (c # cs)) = length (c # cs)"
    by (metis length_append takeWhile_dropWhile_id)
  ultimately show "(dropWhile (\<lambda>c. c = CHR 0x0A) (c # cs), c # cs) \<in> measure length"
    by simp
qed simp_all

subsection \<open>The sanitizer\<close>

definition stripMarkdownCodeBlocks :: "string \<Rightarrow> string" where
  "stripMarkdownCodeBlocks text =
     trim (collapseNewlines (removeHeadings True (removeRules True
       (removeBold (removeFenceEnds (removeFenceStarts text))))))"

section \<open>The model provider and the module state\<close>

text \<open>
  The three prompt texts are read from files at start-up; the files are not part of the
  sources, so the texts are a parameter of every operation.
\<close>

record prompts =
  p5jsPrompt :: string
  phaserPrompt :: string
  AIchatbotPrompt :: string

text \<open>
  What the Anthropic client is asked and what it answers. A content block is a text block
  or a block of another type; a failed call throws an error with a message.
\<close>

datatype content_block = TextBlock string | OtherBlock

record usage_counters =
  output_tokens :: nat
  cache_creation_input_tokens :: "nat option"
  cache_read_input_tokens :: "nat option"

record api_message =
  content :: "content_block list"
  stop_reason :: string
  usage :: usage_counters

datatype js_error = JsError (message: string)

record system_block =
  block_type :: string
  block_text :: string
  cache_control :: string

datatype system_param = SystemBlocks "system_block list" | SystemString string

record api_request =
  model :: string
  max_tokens :: nat
  system :: system_param
  messages :: "(string \<times> string) list"

datatype api_call = MessagesCreate api_request | MessagesStream api_request

text \<open>
  One run of \<open>anthropic.messages.stream\<close>, as the code sees it: the calls of the
  \<open>text\<close> handler in order, each with \<open>textDelta\<close> and \<open>textSnapshot\<close>; then
  \<open>finalMessage()\<close> resolves with the message or rejects with an error. \<open>elapsed\<close> is
  the wall-clock time \<open>((endTime - startTime) / 1000).toFixed(2)\<close> of the run.
\<close>

record stream_run =
  textEvents :: "(string \<times> string) list"
  finalMessage :: "js_error + api_message"
  elapsed :: string

text \<open>The objects passed to the \<open>onChunk\<close> callback, by their \<open>type\<close> field.\<close>

datatype stream_event =
    is_Chunk: Chunk (chunk_text: string) (chunk_full: string) (chunkNumber: nat)
  | is_Complete: Complete (complete_code: string) (complete_totalTime: string)
      (complete_chunks: nat) (complete_tokens: nat)
  | is_ErrorEvent: ErrorEvent (event_error: string)

text \<open>
  A console line is identified by the statement that prints it, with the numbers and
  error messages it interpolates; the library names and wall-clock times it interpolates
  are left out.
\<close>

datatype console_line =
    AskingClaude | SystemPromptLength nat | UserMessageLength nat | TotalInput nat
  | ClaudeApiTime | TokensUsed nat | CacheCreated nat | CacheHit nat | GameGenerated
  | MayBeIncomplete | ConsiderIncreasing | ErrorCallingClaude string
  | AssistantRequest | ChatResponseTime | CodeAssistantError string
  | StreamingGeneration | StreamSystemPrompt nat | StreamUserMessage nat
  | StreamedChunks nat | StreamingComplete | StreamTotalTime | StreamChunks nat
  | StreamTokens nat | StreamMayBeIncomplete | StreamingError string
  | RequestGenerate | HandlerGenerated | HandlerGenerationTime | ServerError string
  | StreamingRequest | StreamingServerError string

text \<open>
  The state the operations share: the module variable \<open>TheCleanCode\<close>, and, as traces,
  the console output and the requests sent to the provider.
\<close>

record world =
  TheCleanCode :: string
  console :: "console_line list"
  apiCalls :: "api_call list"

definition initialWorld :: world where
  "initialWorld = \<lparr>TheCleanCode = [], console = [], apiCalls = []\<rparr>"

definition consoleLog :: "console_line list \<Rightarrow> world \<Rightarrow> world" where
  "consoleLog lines w = w\<lparr>console := console w @ lines\<rparr>"

definition send :: "api_call \<Rightarrow> world \<Rightarrow> world" where
  "send call w = w\<lparr>apiCalls := apiCalls w @ [call]\<rparr>"

fun systemText :: "api_call \<Rightarrow> string" where
  \<comment> \<open>the system prompt text a request carries\<close>
  "systemText (MessagesCreate r) =
     (case system r of SystemBlocks bs \<Rightarrow> concat (map block_text bs) | SystemString t \<Rightarrow> t)"
| "systemText (MessagesStream r) =
     (case system r of SystemBlocks bs \<Rightarrow> concat (map block_text bs) | SystemString t \<Rightarrow> t)"

fun truthy :: "nat option \<Rightarrow> bool" where
  \<comment> \<open>\<open>if (n)\<close> for a counter that may be missing\<close>
  "truthy None = False"
| "truthy (Some n) = (n \<noteq> 0)"

fun collectText :: "string \<Rightarrow> content_block list \<Rightarrow> string" where
  \<comment> \<open>the loop \<open>for (const block of message.content) if (block.type === 'text') response += block.text\<close>\<close>
  "collectText response [] = response"
| "collectText response (TextBlock t # blocks) = collectText (response @ t) blocks"
| "collectText response (OtherBlock # blocks) = collectText response blocks"

section \<open>generateGame\<close>

text \<open>
  \<open>library\<close> is \<open>None\<close> when the argument is omitted; the parameter then takes its
  default. \<open>response\<close> is the outcome of \<open>anthropic.messages.create\<close> for this call.
  The result is the returned code, or the error thrown again by the \<open>catch\<close> block.
\<close>

definition generateGame ::
  "prompts \<Rightarrow> js_error + api_message \<Rightarrow> string \<Rightarrow> string option \<Rightarrow> world
     \<Rightarrow> (js_error + string) \<times> world" where
  "generateGame P response description library_arg w =
     (let library = (case library_arg of None \<Rightarrow> ''p5js'' | Some l \<Rightarrow> l);
          w1 = consoleLog [AskingClaude] w;
          systemPrompt = (if library = ''phaser'' then phaserPrompt P else p5jsPrompt P);
          w2 = consoleLog [SystemPromptLength (length systemPrompt),
                           UserMessageLength (length description),
                           TotalInput (length systemPrompt + length description)] w1;
          w3 = send (MessagesCreate
                 \<lparr>model = ''claude-sonnet-4-5-20250929'', max_tokens = 7000,
                  system = SystemBlocks
                    [\<lparr>block_type = ''text'', block_text = systemPrompt,
                      cache_control = ''ephemeral''\<rparr>],
                  messages = [(''user'', description)]\<rparr>) w2
      in case response of
           Inl error \<Rightarrow> (Inl error, consoleLog [ErrorCallingClaude (message error)] w3)
         | Inr msg \<Rightarrow>
             (let cleanCode = stripMarkdownCodeBlocks (collectText [] (content msg));
                  w4 = consoleLog
                         ([ClaudeApiTime, TokensUsed (output_tokens (usage msg))]
                          @ (if truthy (cache_creation_input_tokens (usage msg))
                             then [CacheCreated (the (cache_creation_input_tokens (usage msg)))]
                             else [])
                          @ (if truthy (cache_read_input_tokens (usage msg))
                             then [CacheHit (the (cache_read_input_tokens (usage msg)))]
                             else [])
                          @ [GameGenerated]
                          @ (if stop_reason msg = ''max_tokens''
                             then [MayBeIncomplete, ConsiderIncreasing] else [])) w3
              in (Inr cleanCode, w4\<lparr>TheCleanCode := cleanCode\<rparr>)))"

section \<open>chatWithCodeAssistant\<close>

definition chatWithCodeAssistant ::
  "prompts \<Rightarrow> js_error + api_message \<Rightarrow> string \<Rightarrow> string option \<Rightarrow> string option \<Rightarrow> world
     \<Rightarrow> (js_error + string) \<times> world" where
  "chatWithCodeAssistant P response userMessage gameCode library w =
     (let w1 = consoleLog [AssistantRequest] w;
          PromptWithCode = AIchatbotPrompt P @ TheCleanCode w1;
          w2 = send (MessagesCreate
                 \<lparr>model = ''claude-sonnet-4-5-20250929'', max_tokens = 7000,
                  system = SystemBlocks
                    [\<lparr>block_type = ''text'', block_text = PromptWithCode,
                      cache_control = ''ephemeral''\<rparr>],
                  messages = [(''user'', userMessage)]\<rparr>) w1
      in case response of
           Inl error \<Rightarrow> (Inl error, consoleLog [CodeAssistantError (message error)] w2)
         | Inr msg \<Rightarrow>
             (Inr (trim (collectText [] (content msg))), consoleLog [ChatResponseTime] w2))"

section \<open>generateGameStreaming\<close>

text \<open>
  The \<open>text\<close> handler updates the local variables \<open>fullResponse\<close> and \<open>chunkCount\<close>,
  calls \<open>onChunk\<close> when there is one, and logs every fiftieth chunk. \<open>delivered\<close> are the
  calls of \<open>onChunk\<close> so far, in order.
\<close>

record stream_locals =
  fullResponse :: string
  chunkCount :: nat
  delivered :: "stream_event list"
  progress :: "console_line list"

definition onText :: "bool \<Rightarrow> string \<times> string \<Rightarrow> stream_locals \<Rightarrow> stream_locals" where
  "onText onChunk ev s =
     (case ev of (textDelta, textSnapshot) \<Rightarrow>
        \<lparr>fullResponse = textSnapshot,
         chunkCount = chunkCount s + 1,
         delivered = delivered s @
           (if onChunk then [Chunk textDelta textSnapshot (chunkCount s + 1)] else []),
         progress = progress s @
           (if (chunkCount s + 1) mod 50 = 0 then [StreamedChunks (chunkCount s + 1)] else [])\<rparr>)"

fun runTextEvents :: "bool \<Rightarrow> (string \<times> string) list \<Rightarrow> stream_locals \<Rightarrow> stream_locals" where
  "runTextEvents onChunk [] s = s"
| "runTextEvents onChunk (ev # evs) s = runTextEvents onChunk evs (onText onChunk ev s)"

text \<open>
  \<open>onChunk\<close> says whether a callback was passed; the events it received are returned
  with the result.
\<close>

definition generateGameStreaming ::
  "prompts \<Rightarrow> stream_run \<Rightarrow> string \<Rightarrow> string option \<Rightarrow> bool \<Rightarrow> world
     \<Rightarrow> (js_error + string) \<times> stream_event list \<times> world" where
  "generateGameStreaming P run description library_arg onChunk w =
     (let library = (case library_arg of None \<Rightarrow> ''p5js'' | Some l \<Rightarrow> l);
          w1 = consoleLog [StreamingGeneration] w;
          systemPrompt = (if library = ''phaser'' then phaserPrompt P else p5jsPrompt P);
          w2 = consoleLog [StreamSystemPrompt (length systemPrompt),
                           StreamUserMessage (length description)] w1;
          w3 = send (MessagesStream
                 \<lparr>model = ''claude-sonnet-4-5-20250929'', max_tokens = 7000,
                  system = SystemString systemPrompt,
                  messages = [(''user'', description)]\<rparr>) w2;
          s = runTextEvents onChunk (textEvents run)
                \<lparr>fullResponse = [], chunkCount = 0, delivered = [], progress = []\<rparr>;
          w4 = consoleLog (progress s) w3
      in case finalMessage run of
           Inl error \<Rightarrow>
             (Inl error,
              delivered s @ (if onChunk then [ErrorEvent (message error)] else []),
              consoleLog [StreamingError (message error)] w4)
         | Inr final \<Rightarrow>
             (let cleanCode = stripMarkdownCodeBlocks (fullResponse s);
                  w5 = consoleLog [StreamingComplete, StreamTotalTime,
                                   StreamChunks (chunkCount s),
                                   StreamTokens (output_tokens (usage final))] w4;
                  events = delivered s @
                    (if onChunk
                     then [Complete cleanCode (elapsed run) (chunkCount s)
                             (output_tokens (usage final))]
                     else []);
                  w6 = consoleLog (if stop_reason final = ''max_tokens''
                                   then [StreamMayBeIncomplete] else []) w5
              in (Inr cleanCode, events, w6\<lparr>TheCleanCode := cleanCode\<rparr>)))"

section \<open>The HTTP handlers for generation\<close>

text \<open>
  The body of a request, as far as the handlers read it: each field is a string or is
  absent.
\<close>

record generate_body =
  req_description :: "string option"
  req_library :: "string option"

datatype reply_body = Failure string | Generated string string

datatype http_reply = JsonReply nat reply_body | EventStream "stream_event list"

fun falsy :: "string option \<Rightarrow> bool" where
  \<comment> \<open>\<open>!field\<close>: the field is absent or the empty string\<close>
  "falsy None = True"
| "falsy (Some s) = (s = [])"

definition toLowerCase :: "string \<Rightarrow> string" where
  \<comment> \<open>on U+0000..U+00FF: A-Z, and the capital letters of U+00C0..U+00DE but not U+00D7\<close>
  "toLowerCase s =
     map (\<lambda>c. let n = (of_char c :: nat)
               in if (65 \<le> n \<and> n \<le> 90) \<or> (192 \<le> n \<and> n \<le> 222 \<and> n \<noteq> 215)
                  then char_of (n + 32) else c) s"

definition quoted :: "string \<Rightarrow> string" where
  \<comment> \<open>the text between two double quote characters\<close>
  "quoted s = CHR 0x22 # s @ [CHR 0x22]"

definition libraryRequired :: string where
  "libraryRequired =
     ''Library is required. Choose either '' @ quoted ''p5js'' @ '' or '' @ quoted ''phaser'' @ ''.''"

definition invalidLibrary :: string where
  "invalidLibrary =
     ''Invalid library. Must be either '' @ quoted ''p5js'' @ '' or '' @ quoted ''phaser'' @ ''.''"

definition postGenerate ::
  "prompts \<Rightarrow> js_error + api_message \<Rightarrow> generate_body \<Rightarrow> world \<Rightarrow> http_reply \<times> world" where
  \<comment> \<open>\<open>app.post('/api/generate', ...)\<close>\<close>
  "postGenerate P response body w =
     (if falsy (req_description body)
      then (JsonReply 400 (Failure
              ''Description is required. Please describe the game you want to create.''), w)
      else if length (trim (the (req_description body))) < 5
      then (JsonReply 400 (Failure
              ''Description is too short. Please provide more details.''), w)
      else if falsy (req_library body)
      then (JsonReply 400 (Failure libraryRequired), w)
      else
        (let normalizedLibrary = toLowerCase (the (req_library body))
         in if normalizedLibrary \<notin> set [''p5js'', ''phaser'']
            then (JsonReply 400 (Failure invalidLibrary), w)
            else
              (case generateGame P response (the (req_description body)) (Some normalizedLibrary)
                      (consoleLog [RequestGenerate] w) of
                 (Inr gameCode, w') \<Rightarrow>
                   (JsonReply 200 (Generated gameCode normalizedLibrary),
                    consoleLog [HandlerGenerated, HandlerGenerationTime] w')
               | (Inl error, w') \<Rightarrow>
                   (JsonReply 500 (Failure (message error)),
                    consoleLog [ServerError (message error)] w'))))"

definition postGenerateStream ::
  "prompts \<Rightarrow> stream_run \<Rightarrow> generate_body \<Rightarrow> world \<Rightarrow> http_reply \<times> world" where
  \<comment> \<open>\<open>app.post('/api/generate-stream', ...)\<close>; the events are the frames written to the response\<close>
  "postGenerateStream P run body w =
     (if falsy (req_description body) \<or> length (trim (the (req_description body))) < 5
      then (JsonReply 400 (Failure
              ''Description is required and must be at least 5 characters.''), w)
      else
        (let normalizedLibrary =
               toLowerCase (if falsy (req_library body) then ''p5js'' else the (req_library body))
         in if normalizedLibrary \<notin> set [''p5js'', ''phaser'']
            then (JsonReply 400 (Failure invalidLibrary), w)
            else
              (case generateGameStreaming P run (the (req_description body))
                      (Some normalizedLibrary) True (consoleLog [StreamingRequest] w) of
                 (Inr code, events, w') \<Rightarrow> (EventStream events, w')
               | (Inl error, events, w') \<Rightarrow>
                   (EventStream (events @ [ErrorEvent (message error)]),
                    consoleLog [StreamingServerError (message error)] w'))))"

section \<open>Auxiliary notions for the properties\<close>


text \<open>
  The states the module can be in: it starts with the empty cache, and every call of an
  exported function or of a generation handler, whatever the provider answers, leads
  from one state to the next.
\<close>

inductive reachable :: "prompts \<Rightarrow> world \<Rightarrow> bool" for P :: prompts where
  start: "reachable P initialWorld"
| generate: "reachable P w \<Longrightarrow>
     reachable P (snd (generateGame P response description library w))"
| chat: "reachable P w \<Longrightarrow>
     reachable P (snd (chatWithCodeAssistant P response userMessage gameCode library w))"
| streaming: "reachable P w \<Longrightarrow>
     reachable P (snd (snd (generateGameStreaming P run description library onChunk w)))"
| handler: "reachable P w \<Longrightarrow> reachable P (snd (postGenerate P response body w))"
| streamHandler: "reachable P w \<Longrightarrow> reachable P (snd (postGenerateStream P run body w))"

text \<open>What the cache may hold: the empty string or an output of the sanitizer.\<close>

abbreviation cacheInvariant :: "world \<Rightarrow> bool" where
  "cacheInvariant w \<equiv> TheCleanCode w \<in> insert [] (range stripMarkdownCodeBlocks)"

text \<open>
  Texts in which the sanitizer finds nothing more to remove: no three backticks in a row,
  no two asterisks in a row, no three hyphens in a row, and no line that begins with
  \<open>#\<close>.
\<close>

definition markerFree :: "string \<Rightarrow> bool" where
  "markerFree s \<longleftrightarrow>
     \<not> sublist ''```'' s \<and> \<not> sublist ''**'' s \<and> \<not> sublist ''---'' s \<and>
     \<not> prefix ''#'' s \<and> \<not> sublist [CHR 0x0A, CHR ''#''] s \<and> \<not> sublist [CHR 0x0D, CHR ''#''] s"

subsection \<open>Sample inputs\<close>

definition samplePrompts :: prompts where
  "samplePrompts =
     \<lparr>p5jsPrompt = ''Write p5.js code.'', phaserPrompt = ''Write Phaser code.'',
      AIchatbotPrompt = ''You help with this game: ''\<rparr>"

definition sampleMessage :: "string \<Rightarrow> api_message" where
  "sampleMessage reason =
     \<lparr>content = [TextBlock ''```js '', OtherBlock, TextBlock ''let x = 1;''],
      stop_reason = reason,
      usage = \<lparr>output_tokens = 7000, cache_creation_input_tokens = None,
               cache_read_input_tokens = Some 1200\<rparr>\<rparr>"

definition sampleRun :: "js_error + api_message \<Rightarrow> stream_run" where
  "sampleRun final =
     \<lparr>textEvents = [(''```js '', ''```js ''), (''let x'', ''```js let x''),
                    ('' = 1;'', ''```js let x = 1;'')],
      finalMessage = final, elapsed = ''1.25''\<rparr>"


definition sampleText :: string where
  \<comment> \<open>the text of the sanitizer example, line by line\<close>
  "sampleText =
     ''```js'' @ [CHR 0x0A] @ ''**bold** text'' @ [CHR 0x0A] @ ''---'' @ [CHR 0x0A]
     @ ''# Heading'' @ [CHR 0x0A, CHR 0x0A, CHR 0x0A, CHR 0x0A] @ ''line'' @ [CHR 0x0A] @ ''```''"

section \<open>Properties of the streaming handler\<close>




lemma runTextEvents_only_chunks:
  "\<exists>chunks. delivered (runTextEvents onChunk evs s) = delivered s @ chunks
            \<and> (\<forall>e \<in> set chunks. is_Chunk e)"
proof (induction evs arbitrary: s)
  case Nil
  then show ?case by simp
next
  case (Cons ev evs)
  obtain chunks where c: "delivered (runTextEvents onChunk evs (onText onChunk ev s))
      = delivered (onText onChunk ev s) @ chunks" "\<forall>e \<in> set chunks. is_Chunk e"
    using Cons.IH by blast
  show ?case
    using c by (cases ev) (auto simp: onText_def)
qed



lemma strip_sample_code: "stripMarkdownCodeBlocks ''```js let x = 1;'' = ''let x = 1;''"
  by code_simp

lemma sample_streaming_result:
  "fst (generateGameStreaming samplePrompts (sampleRun (Inr (sampleMessage reason)))
          ''a bouncing ball'' (Some ''p5js'') True initialWorld) = Inr ''let x = 1;''"
  by (simp add: generateGameStreaming_def Let_def sampleRun_def sampleMessage_def onText_def
      strip_sample_code)






text \<open>
  C4. When the model call fails during a streaming call made with a callback, the call
  delivers exactly one error event, which carries the failure message and comes last,
  delivers no complete event, throws the error on to its caller, and leaves the cache
  as it was.
\<close>

theorem streaming_failure_event_and_rethrow:
  assumes "finalMessage run = Inl err"
    and "generateGameStreaming P run description library True w = (result, events, w')"
  shows "result = Inl err
       \<and> filter is_ErrorEvent events = [ErrorEvent (message err)]
       \<and> last events = ErrorEvent (message err)
       \<and> filter is_Complete events = []
       \<and> TheCleanCode w' = TheCleanCode w"
proof -
  let ?s = "runTextEvents True (textEvents run)
              \<lparr>fullResponse = [], chunkCount = 0, delivered = [], progress = []\<rparr>"
  obtain chunks where ch: "delivered ?s = chunks" "\<forall>e \<in> set chunks. is_Chunk e"
    using runTextEvents_only_chunks [of True "textEvents run"
        "\<lparr>fullResponse = [], chunkCount = 0, delivered = [], progress = []\<rparr>"]
    by auto
  have nc: "filter is_ErrorEvent chunks = [] \<and> filter is_Complete chunks = []"
    using ch(2)
    by (auto simp: filter_empty_conv stream_event.disc_eq_case split: stream_event.splits)
  from assms have r: "result = Inl err" and ev: "events = chunks @ [ErrorEvent (message err)]"
    and w: "TheCleanCode w' = TheCleanCode w"
    by (auto simp: generateGameStreaming_def Let_def ch(1) consoleLog_def send_def)
  show ?thesis
    using r ev w nc by simp
qed

theorem streaming_failure_event_and_rethrow_witness:
  "finalMessage (sampleRun (Inl (JsError ''Overloaded''))) = Inl (JsError ''Overloaded'')
 \<and> fst (generateGameStreaming samplePrompts (sampleRun (Inl (JsError ''Overloaded'')))
          ''a bouncing ball'' None True initialWorld) = Inl (JsError ''Overloaded'')
 \<and> fst (snd (generateGameStreaming samplePrompts (sampleRun (Inl (JsError ''Overloaded'')))
          ''a bouncing ball'' None True initialWorld))
    = [Chunk ''```js '' ''```js '' 1, Chunk ''let x'' ''```js let x'' 2,
       Chunk '' = 1;'' ''```js let x = 1;'' 3, ErrorEvent ''Overloaded'']"
proof -
  let ?call = "generateGameStreaming samplePrompts (sampleRun (Inl (JsError ''Overloaded'')))
                 ''a bouncing ball'' None True initialWorld"
  have fin: "finalMessage (sampleRun (Inl (JsError ''Overloaded''))) = Inl (JsError ''Overloaded'')"
    by (simp add: sampleRun_def)
  have "fst ?call = Inl (JsError ''Overloaded'')"
    using streaming_failure_event_and_rethrow [OF fin, of samplePrompts "''a bouncing ball''" None
        initialWorld "fst ?call" "fst (snd ?call)" "snd (snd ?call)"]
    by simp
  moreover have "fst (snd ?call)
    = [Chunk ''```js '' ''```js '' 1, Chunk ''let x'' ''```js let x'' 2,
       Chunk '' = 1;'' ''```js let x = 1;'' 3, ErrorEvent ''Overloaded'']"
    by (simp add: generateGameStreaming_def Let_def sampleRun_def onText_def)
  ultimately show ?thesis
    using fin by simp
qed

section \<open>Properties of the sanitizer on examples\<close>

text \<open>
  C2 (as amended). On the example text the sanitizer returns \<open>bold text\<close>, an empty
  line, \<open>Heading\<close>, an empty line, \<open>line\<close>: the fences, the bold markers and the heading
  marker are removed, the hyphens of the rule are removed but its line break stays, so an
  empty line is left between \<open>bold text\<close> and \<open>Heading\<close>; the four newlines become two,
  and the result is trimmed.
\<close>

theorem sanitize_example:
  "stripMarkdownCodeBlocks sampleText
     = ''bold text'' @ [CHR 0x0A, CHR 0x0A] @ ''Heading'' @ [CHR 0x0A, CHR 0x0A] @ ''line''"
  unfolding sampleText_def by code_simp

text \<open>C2 as stated fails: the result is not \<open>bold text\<close>, \<open>Heading\<close>, an empty line, \<open>line\<close>.\<close>

theorem sanitize_example_counterexample:
  "stripMarkdownCodeBlocks sampleText
     \<noteq> ''bold text'' @ [CHR 0x0A] @ ''Heading'' @ [CHR 0x0A, CHR 0x0A] @ ''line''"
  unfolding sampleText_def by code_simp

text \<open>
  C3 as stated fails: the sanitizer turns \<open>****a****\<close> into \<open>**a**\<close>, and that into \<open>a\<close>.
\<close>

theorem sanitize_not_idempotent:
  "stripMarkdownCodeBlocks (stripMarkdownCodeBlocks ''****a****'')
     \<noteq> stripMarkdownCodeBlocks ''****a****''
 \<and> stripMarkdownCodeBlocks ''****a****'' = ''**a**''
 \<and> stripMarkdownCodeBlocks ''**a**'' = ''a''"
  by code_simp

section \<open>Properties of the services\<close>

lemma collect_sample_text: "collectText [] (content (sampleMessage reason)) = ''```js let x = 1;''"
  by (simp add: sampleMessage_def)

lemma sample_generate_result:
  "fst (generateGame samplePrompts (Inr (sampleMessage reason)) ''a bouncing ball'' library
          initialWorld) = Inr ''let x = 1;''"
  by (simp add: generateGame_def Let_def collect_sample_text strip_sample_code)

lemma chat_system_prompt:
  "systemText (last (apiCalls (snd (chatWithCodeAssistant P reply userMessage gameCode lib w))))
     = AIchatbotPrompt P @ TheCleanCode w"
  by (cases reply) (simp_all add: chatWithCodeAssistant_def Let_def consoleLog_def send_def)

lemma generateGame_caches_result:
  "generateGame P response description library w = (Inr cleanCode, w1)
     \<Longrightarrow> TheCleanCode w1 = cleanCode"
  by (cases response) (auto simp: generateGame_def Let_def)

lemma generateGameStreaming_caches_result:
  "generateGameStreaming P run description library onChunk w = (Inr cleanCode, events, w1)
     \<Longrightarrow> TheCleanCode w1 = cleanCode"
  by (cases "finalMessage run") (auto simp: generateGameStreaming_def Let_def)

text \<open>
  C5. After a successful \<open>generateGame\<close> or \<open>generateGameStreaming\<close> call that returns
  the clean code c, the next \<open>chatWithCodeAssistant\<close> call sends as its system prompt the
  assistant template followed by c, which contains c.
\<close>

theorem chat_prompt_contains_generated_code:
  "(generateGame P response description library w = (Inr cleanCode, v) \<longrightarrow>
      systemText (last (apiCalls (snd (chatWithCodeAssistant P reply userMessage gameCode lib v))))
        = AIchatbotPrompt P @ cleanCode
    \<and> sublist cleanCode
        (systemText (last (apiCalls (snd (chatWithCodeAssistant P reply userMessage gameCode lib v))))))
 \<and> (generateGameStreaming P run description library onChunk w = (Inr cleanCode, events, v) \<longrightarrow>
      systemText (last (apiCalls (snd (chatWithCodeAssistant P reply userMessage gameCode lib v))))
        = AIchatbotPrompt P @ cleanCode
    \<and> sublist cleanCode
        (systemText (last (apiCalls (snd (chatWithCodeAssistant P reply userMessage gameCode lib v))))))"
  using generateGame_caches_result generateGameStreaming_caches_result
  by (auto simp: chat_system_prompt)

theorem chat_prompt_contains_generated_code_witness:
  "fst (generateGame samplePrompts (Inr (sampleMessage ''end_turn'')) ''a bouncing ball'' None
          initialWorld) = Inr ''let x = 1;''
 \<and> systemText (last (apiCalls (snd (chatWithCodeAssistant samplePrompts
        (Inr (sampleMessage ''end_turn'')) ''make it faster'' None None
        (snd (generateGame samplePrompts (Inr (sampleMessage ''end_turn'')) ''a bouncing ball'' None
                initialWorld))))))
    = ''You help with this game: let x = 1;''
 \<and> fst (generateGameStreaming samplePrompts (sampleRun (Inr (sampleMessage ''end_turn'')))
          ''a bouncing ball'' (Some ''p5js'') True initialWorld) = Inr ''let x = 1;''
 \<and> systemText (last (apiCalls (snd (chatWithCodeAssistant samplePrompts
        (Inr (sampleMessage ''end_turn'')) ''make it faster'' None None
        (snd (snd (generateGameStreaming samplePrompts (sampleRun (Inr (sampleMessage ''end_turn'')))
          ''a bouncing ball'' (Some ''p5js'') True initialWorld)))))))
    = ''You help with this game: let x = 1;''"
proof -
  let ?g = "generateGame samplePrompts (Inr (sampleMessage ''end_turn'')) ''a bouncing ball'' None
              initialWorld"
  let ?s = "generateGameStreaming samplePrompts (sampleRun (Inr (sampleMessage ''end_turn'')))
              ''a bouncing ball'' (Some ''p5js'') True initialWorld"
  have g: "?g = (Inr ''let x = 1;'', snd ?g)"
    by (rule prod_eqI) (simp_all add: sample_generate_result)
  have s: "?s = (Inr ''let x = 1;'', fst (snd ?s), snd (snd ?s))"
    by (rule prod_eqI) (simp_all add: sample_streaming_result prod_eq_iff)
  have t: "AIchatbotPrompt samplePrompts @ ''let x = 1;'' = ''You help with this game: let x = 1;''"
    by (simp add: samplePrompts_def)
  note inst = chat_prompt_contains_generated_code [where P = samplePrompts
      and cleanCode = "''let x = 1;''" and reply = "Inr (sampleMessage ''end_turn'')"
      and userMessage = "''make it faster''" and gameCode = None and lib = None]
  have "systemText (last (apiCalls (snd (chatWithCodeAssistant samplePrompts
        (Inr (sampleMessage ''end_turn'')) ''make it faster'' None None (snd ?g)))))
      = ''You help with this game: let x = 1;''"
    using inst [where v = "snd ?g", THEN conjunct1, rule_format, OF g] t by simp
  moreover have "systemText (last (apiCalls (snd (chatWithCodeAssistant samplePrompts
        (Inr (sampleMessage ''end_turn'')) ''make it faster'' None None (snd (snd ?s))))))
      = ''You help with this game: let x = 1;''"
    using inst [where v = "snd (snd ?s)", THEN conjunct2, rule_format, OF s] t by simp
  ultimately show ?thesis
    using sample_generate_result [of "''end_turn''" None]
      sample_streaming_result [of "''end_turn''"] by blast
qed

lemma generateGame_system_prompt:
  "systemText (last (apiCalls (snd (generateGame P response description library w))))
     = (if library = Some ''phaser'' then phaserPrompt P else p5jsPrompt P)"
  by (cases response; cases library)
     (simp_all add: generateGame_def Let_def consoleLog_def send_def)

lemma generateGameStreaming_system_prompt:
  "systemText (last (apiCalls (snd (snd (generateGameStreaming P run description library onChunk w)))))
     = (if library = Some ''phaser'' then phaserPrompt P else p5jsPrompt P)"
  by (cases "finalMessage run"; cases library)
     (simp_all add: generateGameStreaming_def Let_def consoleLog_def send_def)

text \<open>
  C7. For every library argument, \<open>generateGame\<close> and \<open>generateGameStreaming\<close> send
  the same system prompt; for every library argument other than \<open>phaser\<close> (also an
  omitted one) both send the p5js prompt: the one policy of both is to fall back to the
  default library.
\<close>

theorem library_fallback_is_consistent:
  "systemText (last (apiCalls (snd (generateGame P response description library w))))
     = systemText (last (apiCalls
         (snd (snd (generateGameStreaming P run description library onChunk w)))))
 \<and> (library \<noteq> Some ''phaser'' \<longrightarrow>
      systemText (last (apiCalls (snd (generateGame P response description library w))))
        = p5jsPrompt P
    \<and> systemText (last (apiCalls
         (snd (snd (generateGameStreaming P run description library onChunk w)))))
        = p5jsPrompt P)"
  by (simp add: generateGame_system_prompt generateGameStreaming_system_prompt)

theorem library_fallback_is_consistent_witness:
  "Some ''unity'' \<noteq> Some ''phaser''
 \<and> systemText (last (apiCalls (snd (generateGame samplePrompts (Inr (sampleMessage ''end_turn''))
        ''a bouncing ball'' (Some ''unity'') initialWorld)))) = ''Write p5.js code.''
 \<and> systemText (last (apiCalls (snd (snd (generateGameStreaming samplePrompts
        (sampleRun (Inr (sampleMessage ''end_turn''))) ''a bouncing ball'' (Some ''unity'') True
        initialWorld))))) = ''Write p5.js code.''"
  using library_fallback_is_consistent [of samplePrompts "Inr (sampleMessage ''end_turn'')"
      "''a bouncing ball''" "Some ''unity''" initialWorld
      "sampleRun (Inr (sampleMessage ''end_turn''))" True]
  by (simp add: samplePrompts_def)

text \<open>
  C9. Two \<open>chatWithCodeAssistant\<close> calls with the same user message, the same provider
  answer and the same state, and any \<open>gameCode\<close> and \<open>library\<close> arguments, have the same
  outcome: the same reply or error, the same request sent, the same state after. The
  system prompt is the assistant template followed by the cached code, and the call
  leaves the cache as it was.
\<close>

theorem chat_ignores_gameCode_and_library:
  "chatWithCodeAssistant P reply userMessage gameCode1 library1 w
     = chatWithCodeAssistant P reply userMessage gameCode2 library2 w
 \<and> systemText (last (apiCalls (snd (chatWithCodeAssistant P reply userMessage gameCode1 library1 w))))
     = AIchatbotPrompt P @ TheCleanCode w
 \<and> TheCleanCode (snd (chatWithCodeAssistant P reply userMessage gameCode1 library1 w))
     = TheCleanCode w"
  by (cases reply) (simp_all add: chatWithCodeAssistant_def Let_def consoleLog_def send_def)




section \<open>Properties of the handlers\<close>

lemma toLowerCase_p5js: "toLowerCase ''p5js'' = ''p5js''"
  by (simp add: toLowerCase_def)

text \<open>
  C8 (as amended). For a request with a valid description and no library field, the
  streaming handler takes the default library \<open>p5js\<close> and runs the generation with the
  p5js prompt; the one-shot handler rejects the request with status 400 and the message
  that the library is required, without a call to the provider.
\<close>

theorem absent_library_streaming_defaults_oneshot_rejects:
  assumes "req_library body = None"
    and "\<not> falsy (req_description body)"
    and "5 \<le> length (trim (the (req_description body)))"
  shows "fst (postGenerateStream P run body w)
           = EventStream
               (fst (snd (generateGameStreaming P run (the (req_description body)) (Some ''p5js'')
                            True (consoleLog [StreamingRequest] w)))
                @ (case finalMessage run of Inl error \<Rightarrow> [ErrorEvent (message error)]
                   | Inr final \<Rightarrow> []))
       \<and> systemText (last (apiCalls (snd (postGenerateStream P run body w)))) = p5jsPrompt P
       \<and> postGenerate P response body w = (JsonReply 400 (Failure libraryRequired), w)"
proof -
  have res: "fst (generateGameStreaming P run d l True v)
               = (case finalMessage run of Inl error \<Rightarrow> Inl error
                  | Inr final \<Rightarrow> Inr (stripMarkdownCodeBlocks (fullResponse
                      (runTextEvents True (textEvents run)
                        \<lparr>fullResponse = [], chunkCount = 0, delivered = [], progress = []\<rparr>))))"
    for d l v
    by (cases "finalMessage run") (simp_all add: generateGameStreaming_def Let_def)
  let ?call = "generateGameStreaming P run (the (req_description body)) (Some ''p5js'')
                 True (consoleLog [StreamingRequest] w)"
  have str: "postGenerateStream P run body w =
      (case ?call of
         (Inr code, events, w') \<Rightarrow> (EventStream events, w')
       | (Inl error, events, w') \<Rightarrow>
           (EventStream (events @ [ErrorEvent (message error)]),
            consoleLog [StreamingServerError (message error)] w'))"
    using assms by (simp add: postGenerateStream_def toLowerCase_p5js)
  have "fst (postGenerateStream P run body w)
           = EventStream (fst (snd ?call)
                @ (case finalMessage run of Inl error \<Rightarrow> [ErrorEvent (message error)]
                   | Inr final \<Rightarrow> []))"
    unfolding str using res [of "the (req_description body)" "Some ''p5js''" "consoleLog [StreamingRequest] w"]
    by (cases ?call; cases "finalMessage run") (auto split: sum.splits)
  moreover have "systemText (last (apiCalls (snd (postGenerateStream P run body w)))) = p5jsPrompt P"
    unfolding str
    using generateGameStreaming_system_prompt [of P run "the (req_description body)" "Some ''p5js''"
        True "consoleLog [StreamingRequest] w"]
    by (cases ?call) (auto split: sum.splits simp: consoleLog_def)
  moreover have "postGenerate P response body w = (JsonReply 400 (Failure libraryRequired), w)"
    using assms by (simp add: postGenerate_def)
  ultimately show ?thesis by blast
qed

lemma trim_sample_description: "trim ''a bouncing ball'' = ''a bouncing ball''"
  by code_simp

theorem absent_library_streaming_defaults_oneshot_rejects_witness:
  "req_library \<lparr>req_description = Some ''a bouncing ball'', req_library = None\<rparr> = None
 \<and> \<not> falsy (req_description \<lparr>req_description = Some ''a bouncing ball'', req_library = None\<rparr>)
 \<and> 5 \<le> length (trim (the (req_description
            \<lparr>req_description = Some ''a bouncing ball'', req_library = None\<rparr>)))
 \<and> systemText (last (apiCalls (snd (postGenerateStream samplePrompts
        (sampleRun (Inr (sampleMessage ''end_turn'')))
        \<lparr>req_description = Some ''a bouncing ball'', req_library = None\<rparr> initialWorld))))
    = ''Write p5.js code.''
 \<and> postGenerate samplePrompts (Inr (sampleMessage ''end_turn''))
      \<lparr>req_description = Some ''a bouncing ball'', req_library = None\<rparr> initialWorld
    = (JsonReply 400 (Failure libraryRequired), initialWorld)"
proof -
  let ?body = "\<lparr>req_description = Some ''a bouncing ball'', req_library = None\<rparr>"
  have a: "req_library ?body = None" by simp
  have b: "\<not> falsy (req_description ?body)" by simp
  have c: "5 \<le> length (trim (the (req_description ?body)))"
    by (simp add: trim_sample_description)
  have p: "p5jsPrompt samplePrompts = ''Write p5.js code.''"
    by (simp add: samplePrompts_def)
  show ?thesis
    using a b c absent_library_streaming_defaults_oneshot_rejects [OF a b c, of samplePrompts
        "sampleRun (Inr (sampleMessage ''end_turn''))" initialWorld
        "Inr (sampleMessage ''end_turn'')"]
    unfolding p by blast
qed

text \<open>
  C8 as stated fails for the one-shot handler: a request with a valid description and no
  library field is rejected with status 400, and nothing is sent to the provider.
\<close>

theorem absent_library_oneshot_counterexample:
  "postGenerate samplePrompts (Inr (sampleMessage ''end_turn''))
     \<lparr>req_description = Some ''a bouncing ball'', req_library = None\<rparr> initialWorld
   = (JsonReply 400 (Failure libraryRequired), initialWorld)
 \<and> apiCalls (snd (postGenerate samplePrompts (Inr (sampleMessage ''end_turn''))
     \<lparr>req_description = Some ''a bouncing ball'', req_library = None\<rparr> initialWorld)) = []"
  by (simp add: postGenerate_def trim_sample_description initialWorld_def)

section \<open>The cache invariant\<close>

lemma generateGame_cache:
  "TheCleanCode (snd (generateGame P response description library w))
     = (case response of Inl error \<Rightarrow> TheCleanCode w
        | Inr msg \<Rightarrow> stripMarkdownCodeBlocks (collectText [] (content msg)))"
  by (cases response) (simp_all add: generateGame_def Let_def consoleLog_def send_def)

lemma generateGameStreaming_cache:
  "TheCleanCode (snd (snd (generateGameStreaming P run description library onChunk w)))
     = (case finalMessage run of Inl error \<Rightarrow> TheCleanCode w
        | Inr final \<Rightarrow> stripMarkdownCodeBlocks (fullResponse (runTextEvents onChunk (textEvents run)
            \<lparr>fullResponse = [], chunkCount = 0, delivered = [], progress = []\<rparr>)))"
  by (cases "finalMessage run")
     (simp_all add: generateGameStreaming_def Let_def consoleLog_def send_def)

lemma chat_cache:
  "TheCleanCode (snd (chatWithCodeAssistant P reply userMessage gameCode lib w)) = TheCleanCode w"
  by (cases reply) (simp_all add: chatWithCodeAssistant_def Let_def consoleLog_def send_def)

lemma cacheInvariant_consoleLog: "cacheInvariant (consoleLog lines w) = cacheInvariant w"
  by (simp add: consoleLog_def)

lemma cacheInvariant_generateGame:
  "cacheInvariant w \<Longrightarrow> cacheInvariant (snd (generateGame P response description library w))"
  unfolding generateGame_cache by (cases response) auto

lemma cacheInvariant_generateGameStreaming:
  "cacheInvariant w
     \<Longrightarrow> cacheInvariant (snd (snd (generateGameStreaming P run description library onChunk w)))"
  unfolding generateGameStreaming_cache by (cases "finalMessage run") auto

lemma cacheInvariant_postGenerate:
  assumes "cacheInvariant w"
  shows "cacheInvariant (snd (postGenerate P response body w))"
proof -
  have g: "cacheInvariant (snd (generateGame P response d l (consoleLog [RequestGenerate] w)))"
    for d l
    using assms cacheInvariant_consoleLog [of "[RequestGenerate]" w]
    by (intro cacheInvariant_generateGame) blast
  show ?thesis
  proof (cases "generateGame P response (the (req_description body))
                  (Some (toLowerCase (the (req_library body)))) (consoleLog [RequestGenerate] w)")
    case (Pair r v)
    with g [of "the (req_description body)" "Some (toLowerCase (the (req_library body)))"]
    have v: "cacheInvariant v" by simp
    show ?thesis
      using assms v Pair
      by (cases r) (simp_all add: postGenerate_def Let_def consoleLog_def)
  qed
qed

lemma cacheInvariant_postGenerateStream:
  assumes "cacheInvariant w"
  shows "cacheInvariant (snd (postGenerateStream P run body w))"
proof -
  let ?l = "Some (toLowerCase (if falsy (req_library body) then ''p5js''
              else the (req_library body)))"
  have g: "cacheInvariant (snd (snd (generateGameStreaming P run d l True
             (consoleLog [StreamingRequest] w))))" for d l
    using assms cacheInvariant_consoleLog [of "[StreamingRequest]" w]
    by (intro cacheInvariant_generateGameStreaming) blast
  show ?thesis
  proof (cases "generateGameStreaming P run (the (req_description body)) ?l True
                  (consoleLog [StreamingRequest] w)")
    case (fields r events v)
    with g [of "the (req_description body)" ?l]
    have v: "cacheInvariant v" by simp
    show ?thesis
      using assms v fields
      by (cases r) (simp_all add: postGenerateStream_def Let_def consoleLog_def)
  qed
qed

text \<open>
  C10. The cache starts empty, and in every state the module can reach it holds the
  empty string or an output of the sanitizer. A chat call in a state with the empty
  cache sends exactly the assistant template as its system prompt, and returns the
  trimmed reply whenever the provider answers.
\<close>

theorem cache_is_empty_or_sanitizer_output:
  "TheCleanCode initialWorld = []
 \<and> (reachable P w \<longrightarrow>
      TheCleanCode w = [] \<or> (\<exists>text. TheCleanCode w = stripMarkdownCodeBlocks text))
 \<and> (TheCleanCode w = [] \<longrightarrow>
      systemText (last (apiCalls (snd (chatWithCodeAssistant P reply userMessage gameCode lib w))))
        = AIchatbotPrompt P
    \<and> (\<forall>msg. reply = Inr msg \<longrightarrow>
          fst (chatWithCodeAssistant P reply userMessage gameCode lib w)
            = Inr (trim (collectText [] (content msg)))))"
proof -
  have inv: "cacheInvariant w" if "reachable P w"
    using that
  proof induction
    case start
    show ?case by (simp add: initialWorld_def)
  next
    case (generate w response description library)
    from generate.IH show ?case by (rule cacheInvariant_generateGame)
  next
    case (chat w response userMessage gameCode library)
    from chat.IH show ?case by (simp only: chat_cache)
  next
    case (streaming w run description library onChunk)
    from streaming.IH show ?case by (rule cacheInvariant_generateGameStreaming)
  next
    case (handler w response body)
    from handler.IH show ?case by (rule cacheInvariant_postGenerate)
  next
    case (streamHandler w run body)
    from streamHandler.IH show ?case by (rule cacheInvariant_postGenerateStream)
  qed
  have reply: "fst (chatWithCodeAssistant P (Inr msg) userMessage gameCode lib w)
      = Inr (trim (collectText [] (content msg)))" for msg
    by (simp add: chatWithCodeAssistant_def Let_def)
  show ?thesis
    using inv reply by (auto simp: chat_system_prompt initialWorld_def)
qed

theorem cache_is_empty_or_sanitizer_output_witness:
  "reachable samplePrompts (snd (generateGame samplePrompts (Inr (sampleMessage ''end_turn''))
      ''a bouncing ball'' None initialWorld))
 \<and> TheCleanCode (snd (generateGame samplePrompts (Inr (sampleMessage ''end_turn''))
      ''a bouncing ball'' None initialWorld)) = stripMarkdownCodeBlocks ''```js let x = 1;''
 \<and> TheCleanCode initialWorld = []
 \<and> systemText (last (apiCalls (snd (chatWithCodeAssistant samplePrompts
      (Inr (sampleMessage ''end_turn'')) ''make it faster'' None None initialWorld))))
    = ''You help with this game: ''
 \<and> fst (chatWithCodeAssistant samplePrompts (Inr (sampleMessage ''end_turn''))
      ''make it faster'' None None initialWorld) = Inr ''```js let x = 1;''"
proof -
  let ?w = "snd (generateGame samplePrompts (Inr (sampleMessage ''end_turn''))
      ''a bouncing ball'' None initialWorld)"
  have r: "reachable samplePrompts ?w"
    by (rule reachable.generate) (rule reachable.start)
  have c: "TheCleanCode ?w = stripMarkdownCodeBlocks ''```js let x = 1;''"
    by (simp add: generateGame_cache collect_sample_text)
  have e: "TheCleanCode initialWorld = []"
    by (simp add: initialWorld_def)
  have t: "trim ''```js let x = 1;'' = ''```js let x = 1;''"
    by code_simp
  have p: "AIchatbotPrompt samplePrompts = ''You help with this game: ''"
    by (simp add: samplePrompts_def)
  have "TheCleanCode ?w = [] \<or> (\<exists>text. TheCleanCode ?w = stripMarkdownCodeBlocks text)"
    using cache_is_empty_or_sanitizer_output [where P = samplePrompts and w = ?w] r by blast
  moreover have "systemText (last (apiCalls (snd (chatWithCodeAssistant samplePrompts
      (Inr (sampleMessage ''end_turn'')) ''make it faster'' None None initialWorld))))
    = ''You help with this game: ''
   \<and> fst (chatWithCodeAssistant samplePrompts (Inr (sampleMessage ''end_turn''))
      ''make it faster'' None None initialWorld) = Inr ''```js let x = 1;''"
    using cache_is_empty_or_sanitizer_output [where w = initialWorld and P = samplePrompts
        and reply = "Inr (sampleMessage ''end_turn'')" and userMessage = "''make it faster''"
        and gameCode = None and lib = None] e
    unfolding p by (simp add: collect_sample_text t)
  ultimately show ?thesis
    using r c e by blast
qed

section \<open>Idempotence of the sanitizer\<close>

lemma takeWhile_eq_prefix3:
  assumes "3 \<le> length (takeWhile (\<lambda>c. c = x) s)"
  shows "prefix [x, x, x] s"
proof -
  let ?t = "takeWhile (\<lambda>c. c = x) s"
  have same: "replicate (length ?t) x = ?t"
    by (rule replicate_length_same) (auto dest: set_takeWhileD)
  obtain n where n: "length ?t = 3 + n"
    using assms le_Suc_ex by blast
  have "?t = replicate 3 x @ replicate n x"
    using same unfolding n by (simp only: replicate_add)
  then have "s = (replicate 3 x @ replicate n x) @ dropWhile (\<lambda>c. c = x) s"
    using takeWhile_dropWhile_id [of "\<lambda>c. c = x" s] by simp
  moreover have "replicate 3 x = [x, x, x]"
    by (simp add: numeral_3_eq_3)
  ultimately have "s = [x, x, x] @ (replicate n x @ dropWhile (\<lambda>c. c = x) s)"
    by simp
  then show ?thesis
    by (rule prefixI)
qed

lemma removeFenceStarts_id: "\<not> sublist ''```'' s \<Longrightarrow> removeFenceStarts s = s"
proof (induction s rule: removeFenceStarts.induct)
  case 1
  show ?case by simp
next
  case (2 c cs)
  from "2.prems" have np: "\<not> prefix ''```'' (c # cs)" and ns: "\<not> sublist ''```'' cs"
    by (auto simp: sublist_Cons_right)
  have "removeFenceStarts (c # cs) = c # removeFenceStarts cs"
    by (simp only: removeFenceStarts.simps np if_False)
  with "2.IH"(2) [OF np ns] show ?case by simp
qed

lemma removeFenceEnds_id: "\<not> sublist ''```'' s \<Longrightarrow> removeFenceEnds s = s"
proof (induction s rule: removeFenceEnds.induct)
  case 1
  show ?case by simp
next
  case (2 c cs)
  have "\<not> prefix ''```'' (dropWhile isWhiteSpace (c # cs))"
  proof
    assume "prefix ''```'' (dropWhile isWhiteSpace (c # cs))"
    then have "sublist ''```'' (dropWhile isWhiteSpace (c # cs))"
      by (rule prefix_imp_sublist)
    then have "sublist ''```'' (c # cs)"
      using sublist_dropWhile [of isWhiteSpace "c # cs"] sublist_order.order_trans by blast
    with "2.prems" show False by simp
  qed
  note np = this
  from "2.prems" have ns: "\<not> sublist ''```'' cs"
    by (auto simp: sublist_Cons_right)
  have "removeFenceEnds (c # cs) = c # removeFenceEnds cs"
    by (simp only: removeFenceEnds.simps np if_False)
  with "2.IH"(2) [OF np ns] show ?case by simp
qed

lemma removeBold_id: "\<not> sublist ''**'' s \<Longrightarrow> removeBold s = s"
proof (induction s rule: removeBold.induct)
  case 1
  show ?case by simp
next
  case (2 c cs)
  from "2.prems" have np: "\<not> prefix ''**'' (c # cs)" and ns: "\<not> sublist ''**'' cs"
    by (auto simp: sublist_Cons_right)
  from np have none: "boldMatch (c # cs) = None"
    by (simp only: boldMatch_def Let_def simp_thms if_False)
  have "removeBold (c # cs) = c # removeBold cs"
    by (simp only: removeBold.simps none option.case)
  with "2.IH"(1) [OF none ns] show ?case by simp
qed

lemma removeRules_id: "\<not> sublist ''---'' s \<Longrightarrow> removeRules lineStart s = s"
proof (induction lineStart s rule: removeRules.induct)
  case (1 lineStart)
  show ?case by simp
next
  case (2 lineStart c cs)
  from "2.prems" have np: "\<not> prefix ''---'' (c # cs)" and ns: "\<not> sublist ''---'' cs"
    by (auto simp: sublist_Cons_right)
  from np have short: "\<not> 3 \<le> length (takeWhile (\<lambda>c. c = CHR ''-'') (c # cs))"
    using takeWhile_eq_prefix3 [of "CHR ''-''" "c # cs"] by blast
  then have nomatch: "\<not> (lineStart \<and> 3 \<le> length (takeWhile (\<lambda>c. c = CHR ''-'') (c # cs))
      \<and> (dropWhile (\<lambda>c. c = CHR ''-'') (c # cs) = []
         \<or> isLineTerminator (hd (dropWhile (\<lambda>c. c = CHR ''-'') (c # cs)))))"
    by blast
  have "removeRules lineStart (c # cs) = c # removeRules (isLineTerminator c) cs"
    by (simp only: removeRules.simps Let_def nomatch if_False)
  moreover have "removeRules (isLineTerminator c) cs = cs"
    using "2.IH"(2) [OF refl refl nomatch ns] .
  ultimately show ?case by simp
qed

lemma removeHeadings_id:
  "(lineStart \<longrightarrow> \<not> prefix ''#'' s) \<Longrightarrow> \<not> sublist [CHR 0x0A, CHR ''#''] s
     \<Longrightarrow> \<not> sublist [CHR 0x0D, CHR ''#''] s \<Longrightarrow> removeHeadings lineStart s = s"
proof (induction lineStart s rule: removeHeadings.induct)
  case (1 lineStart)
  show ?case by simp
next
  case (2 lineStart c cs)
  from "2.prems"(1) have nomatch: "\<not> (lineStart \<and> c = CHR ''#'')"
    by auto
  from "2.prems"(2,3) have ns: "\<not> sublist [CHR 0x0A, CHR ''#''] cs" "\<not> sublist [CHR 0x0D, CHR ''#''] cs"
    and np: "\<not> prefix [CHR 0x0A, CHR ''#''] (c # cs)" "\<not> prefix [CHR 0x0D, CHR ''#''] (c # cs)"
    by (auto simp: sublist_Cons_right)
  from np have next_line: "isLineTerminator c \<longrightarrow> \<not> prefix ''#'' cs"
    by (auto simp: isLineTerminator_def)
  have "removeHeadings (isLineTerminator c) cs = cs"
    using "2.IH"(2) [OF nomatch next_line ns] .
  moreover have "removeHeadings lineStart (c # cs) = c # removeHeadings (isLineTerminator c) cs"
    by (simp only: removeHeadings.simps nomatch if_False)
  ultimately show ?case by simp
qed

lemma collapseNewlines_id: "\<not> sublist [CHR 0x0A, CHR 0x0A, CHR 0x0A] s \<Longrightarrow> collapseNewlines s = s"
proof (induction s rule: collapseNewlines.induct)
  case 1
  show ?case by simp
next
  case (2 c cs)
  from "2.prems" have np: "\<not> prefix [CHR 0x0A, CHR 0x0A, CHR 0x0A] (c # cs)"
    and ns: "\<not> sublist [CHR 0x0A, CHR 0x0A, CHR 0x0A] cs"
    by (auto simp: sublist_Cons_right)
  from np have short: "\<not> 3 \<le> length (takeWhile (\<lambda>c. c = CHR 0x0A) (c # cs))"
    using takeWhile_eq_prefix3 [of "CHR 0x0A" "c # cs"] by blast
  have "collapseNewlines (c # cs) = c # collapseNewlines cs"
    by (simp only: collapseNewlines.simps short if_False)
  with "2.IH"(2) [OF short ns] show ?case by simp
qed

lemma collapseNewlines_leading:
  "length (takeWhile (\<lambda>c. c = CHR 0x0A) (collapseNewlines s))
     = min 2 (length (takeWhile (\<lambda>c. c = CHR 0x0A) s))"
proof (induction s rule: collapseNewlines.induct)
  case 1
  show ?case by simp
next
  case (2 c cs)
  show ?case
  proof (cases "3 \<le> length (takeWhile (\<lambda>c. c = CHR 0x0A) (c # cs))")
    case True
    have eq: "collapseNewlines (c # cs)
        = CHR 0x0A # CHR 0x0A # collapseNewlines (dropWhile (\<lambda>c. c = CHR 0x0A) (c # cs))"
      by (simp only: collapseNewlines.simps True if_True)
    have none: "takeWhile (\<lambda>c. c = CHR 0x0A) (dropWhile (\<lambda>c. c = CHR 0x0A) (c # cs)) = []"
      by (metis (mono_tags, lifting) dropWhile_eq_Nil_conv hd_dropWhile takeWhile.simps(1)
          takeWhile_eq_Nil_iff)
    have "length (takeWhile (\<lambda>c. c = CHR 0x0A)
            (collapseNewlines (dropWhile (\<lambda>c. c = CHR 0x0A) (c # cs)))) = 0"
      using "2.IH"(1) [OF True] unfolding none by simp
    then show ?thesis
      unfolding eq using True by simp
  next
    case False
    have eq: "collapseNewlines (c # cs) = c # collapseNewlines cs"
      by (simp only: collapseNewlines.simps False if_False)
    show ?thesis
      unfolding eq using "2.IH"(2) [OF False] False by (cases "c = CHR 0x0A") auto
  qed
qed

lemma no_triple_after_two:
  "\<not> prefix [n] t \<Longrightarrow> \<not> sublist [n, n, n] t \<Longrightarrow> \<not> sublist [n, n, n] (n # n # t)"
  by (cases t) (auto simp: sublist_Cons_right)

lemma collapseNewlines_no_triple:
  "\<not> sublist [CHR 0x0A, CHR 0x0A, CHR 0x0A] (collapseNewlines s)"
proof (induction s rule: collapseNewlines.induct)
  case 1
  show ?case by simp
next
  case (2 c cs)
  show ?case
  proof (cases "3 \<le> length (takeWhile (\<lambda>c. c = CHR 0x0A) (c # cs))")
    case True
    let ?t = "collapseNewlines (dropWhile (\<lambda>c. c = CHR 0x0A) (c # cs))"
    have eq: "collapseNewlines (c # cs) = CHR 0x0A # CHR 0x0A # ?t"
      by (simp only: collapseNewlines.simps True if_True)
    have none: "takeWhile (\<lambda>c. c = CHR 0x0A) (dropWhile (\<lambda>c. c = CHR 0x0A) (c # cs)) = []"
      by (metis (mono_tags, lifting) dropWhile_eq_Nil_conv hd_dropWhile takeWhile.simps(1)
          takeWhile_eq_Nil_iff)
    have lead: "length (takeWhile (\<lambda>c. c = CHR 0x0A) ?t) = 0"
      unfolding collapseNewlines_leading none by simp
    then have "\<not> prefix [CHR 0x0A] ?t"
      by (cases ?t) auto
    with "2.IH"(1) [OF True] show ?thesis
      unfolding eq by (rule no_triple_after_two [rotated])
  next
    case False
    have eq: "collapseNewlines (c # cs) = c # collapseNewlines cs"
      by (simp only: collapseNewlines.simps False if_False)
    have "\<not> prefix [CHR 0x0A, CHR 0x0A, CHR 0x0A] (c # collapseNewlines cs)"
    proof
      assume p: "prefix [CHR 0x0A, CHR 0x0A, CHR 0x0A] (c # collapseNewlines cs)"
      then have c: "c = CHR 0x0A" and "prefix [CHR 0x0A, CHR 0x0A] (collapseNewlines cs)"
        by auto
      then have "2 \<le> length (takeWhile (\<lambda>c. c = CHR 0x0A) (collapseNewlines cs))"
        by (auto simp: prefix_def)
      then have "2 \<le> length (takeWhile (\<lambda>c. c = CHR 0x0A) cs)"
        unfolding collapseNewlines_leading by simp
      with c False show False by simp
    qed
    with "2.IH"(2) [OF False] show ?thesis
      unfolding eq by (simp only: sublist_Cons_right simp_thms)
  qed
qed

lemma sublist_trim: "sublist (trim s) s"
proof -
  have "sublist (dropWhile isWhiteSpace (rev (dropWhile isWhiteSpace s)))
          (rev (dropWhile isWhiteSpace s))"
    by (rule sublist_dropWhile)
  then have "sublist (trim s) (dropWhile isWhiteSpace s)"
    unfolding trim_def by (simp only: sublist_rev_left)
  moreover have "sublist (dropWhile isWhiteSpace s) s"
    by (rule sublist_dropWhile)
  ultimately show ?thesis
    by (rule sublist_order.order_trans)
qed

lemma trim_trim: "trim (trim s) = trim s"
proof -
  let ?u = "dropWhile isWhiteSpace s"
  let ?v = "rev (dropWhile isWhiteSpace (rev ?u))"
  have u: "?u = ?v @ rev (takeWhile isWhiteSpace (rev ?u))"
    by (metis rev_append rev_rev_ident takeWhile_dropWhile_id)
  have front: "dropWhile isWhiteSpace ?v = ?v"
  proof (cases "?v = []")
    case True
    show ?thesis by (simp only: True dropWhile.simps)
  next
    case False
    then have "hd ?v = hd ?u"
      using u by (metis hd_append2)
    moreover have nonempty: "?u \<noteq> []"
    proof
      assume e: "?u = []"
      have "?v = []"
        unfolding e by simp
      with False show False ..
    qed
    have "\<not> isWhiteSpace (hd ?u)"
      using nonempty by (rule hd_dropWhile)
    ultimately show ?thesis
      using False by (metis dropWhile_eq_self_iff)
  qed
  have rear: "dropWhile isWhiteSpace (rev ?v) = rev ?v"
    by simp
  have "trim (trim s) = rev (dropWhile isWhiteSpace (rev (dropWhile isWhiteSpace ?v)))"
    by (simp only: trim_def)
  also have "\<dots> = rev (dropWhile isWhiteSpace (rev ?v))"
    by (simp only: front)
  also have "\<dots> = rev (rev ?v)"
    by (simp only: rear)
  also have "\<dots> = trim s"
    by (simp only: rev_rev_ident trim_def)
  finally show ?thesis .
qed

lemma skipLanguage_length: "length (skipLanguage s) \<le> length s"
  by (simp add: skipLanguage_def split: option.splits)

lemma removeFenceStarts_shrinks:
  "length (removeFenceStarts s) \<le> length s
   \<and> (length (removeFenceStarts s) = length s \<longrightarrow> removeFenceStarts s = s)"
proof (induction s rule: removeFenceStarts.induct)
  case 1
  show ?case by simp
next
  case (2 c cs)
  show ?case
  proof (cases "prefix ''```'' (c # cs)")
    case True
    let ?r = "dropWhile isWhiteSpace (skipLanguage (drop 3 (c # cs)))"
    have eq: "removeFenceStarts (c # cs) = removeFenceStarts ?r"
      by (simp only: removeFenceStarts.simps True if_True)
    have "length ?r \<le> length (skipLanguage (drop 3 (c # cs)))"
      by (rule length_dropWhile_le)
    also have "\<dots> \<le> length (drop 3 (c # cs))"
      by (rule skipLanguage_length)
    also have "\<dots> < length (c # cs)"
      by simp
    finally have "length ?r < length (c # cs)" .
    moreover have "length (removeFenceStarts ?r) \<le> length ?r"
      using "2.IH"(1) [OF True] by blast
    ultimately have "length (removeFenceStarts (c # cs)) < length (c # cs)"
      unfolding eq by linarith
    then show ?thesis by linarith
  next
    case False
    have eq: "removeFenceStarts (c # cs) = c # removeFenceStarts cs"
      by (simp only: removeFenceStarts.simps False if_False)
    show ?thesis
      unfolding eq using "2.IH"(2) [OF False] by simp
  qed
qed

lemma removeFenceEnds_shrinks:
  "length (removeFenceEnds s) \<le> length s
   \<and> (length (removeFenceEnds s) = length s \<longrightarrow> removeFenceEnds s = s)"
proof (induction s rule: removeFenceEnds.induct)
  case 1
  show ?case by simp
next
  case (2 c cs)
  show ?case
  proof (cases "prefix ''```'' (dropWhile isWhiteSpace (c # cs))")
    case True
    let ?d = "dropWhile isWhiteSpace (c # cs)"
    have eq: "removeFenceEnds (c # cs) = removeFenceEnds (drop 3 ?d)"
      by (simp only: removeFenceEnds.simps True if_True)
    have "3 \<le> length ?d"
      using True prefix_length_le by fastforce
    then have "length (drop 3 ?d) < length ?d"
      by simp
    also have "\<dots> \<le> length (c # cs)"
      by (rule length_dropWhile_le)
    finally have "length (drop 3 ?d) < length (c # cs)" .
    moreover have "length (removeFenceEnds (drop 3 ?d)) \<le> length (drop 3 ?d)"
      using "2.IH"(1) [OF True] by blast
    ultimately have "length (removeFenceEnds (c # cs)) < length (c # cs)"
      unfolding eq by linarith
    then show ?thesis by linarith
  next
    case False
    have eq: "removeFenceEnds (c # cs) = c # removeFenceEnds cs"
      by (simp only: removeFenceEnds.simps False if_False)
    show ?thesis
      unfolding eq using "2.IH"(2) [OF False] by simp
  qed
qed

lemma boldMatch_lengths:
  assumes "boldMatch s = Some (inner, rest)"
  shows "length inner + length rest < length s"
proof -
  let ?body = "drop 2 s"
  from assms have i: "inner = takeWhile (\<lambda>c. c \<noteq> CHR ''*'') ?body"
    and r: "rest = drop 2 (dropWhile (\<lambda>c. c \<noteq> CHR ''*'') ?body)"
    and p: "prefix ''**'' s"
    by (auto simp: boldMatch_def Let_def split: if_splits)
  from p have "2 \<le> length s"
    using prefix_length_le by fastforce
  then have "length ?body < length s"
    by simp
  moreover have "length inner + length (dropWhile (\<lambda>c. c \<noteq> CHR ''*'') ?body) = length ?body"
    unfolding i by (metis length_append takeWhile_dropWhile_id)
  moreover have "length rest \<le> length (dropWhile (\<lambda>c. c \<noteq> CHR ''*'') ?body)"
    unfolding r by simp
  ultimately show ?thesis by linarith
qed

lemma removeBold_shrinks:
  "length (removeBold s) \<le> length s
   \<and> (length (removeBold s) = length s \<longrightarrow> removeBold s = s)"
proof (induction s rule: removeBold.induct)
  case 1
  show ?case by simp
next
  case (2 c cs)
  show ?case
  proof (cases "boldMatch (c # cs)")
    case None
    have eq: "removeBold (c # cs) = c # removeBold cs"
      by (simp only: removeBold.simps None option.case)
    show ?thesis
      unfolding eq using "2.IH"(1) [OF None] by simp
  next
    case (Some m)
    obtain inner rest where m: "m = (inner, rest)"
      by (cases m)
    have eq: "removeBold (c # cs) = inner @ removeBold rest"
      by (simp only: removeBold.simps Some m option.case prod.case)
    have "length (removeBold rest) \<le> length rest"
      using "2.IH"(2) [OF Some m [symmetric]] by blast
    moreover have "length inner + length rest < length (c # cs)"
      using Some unfolding m by (rule boldMatch_lengths)
    ultimately have "length (removeBold (c # cs)) < length (c # cs)"
      unfolding eq by simp
    then show ?thesis by linarith
  qed
qed

lemma removeRules_shrinks:
  "length (removeRules lineStart s) \<le> length s
   \<and> (length (removeRules lineStart s) = length s \<longrightarrow> removeRules lineStart s = s)"
proof (induction lineStart s rule: removeRules.induct)
  case (1 lineStart)
  show ?case by simp
next
  case (2 lineStart c cs)
  let ?hyphens = "takeWhile (\<lambda>c. c = CHR ''-'') (c # cs)"
  let ?rest = "dropWhile (\<lambda>c. c = CHR ''-'') (c # cs)"
  let ?match = "lineStart \<and> 3 \<le> length ?hyphens \<and> (?rest = [] \<or> isLineTerminator (hd ?rest))"
  show ?case
  proof (cases ?match)
    case True
    have eq: "removeRules lineStart (c # cs) = removeRules False ?rest"
      by (simp only: removeRules.simps Let_def if_P [OF True])
    have "length ?hyphens + length ?rest = length (c # cs)"
      by (metis length_append takeWhile_dropWhile_id)
    with True have "length ?rest < length (c # cs)"
      by linarith
    moreover have "length (removeRules False ?rest) \<le> length ?rest"
      using "2.IH"(1) [OF refl refl True] by blast
    ultimately have "length (removeRules lineStart (c # cs)) < length (c # cs)"
      unfolding eq by linarith
    then show ?thesis by linarith
  next
    case False
    have eq: "removeRules lineStart (c # cs) = c # removeRules (isLineTerminator c) cs"
      by (simp only: removeRules.simps Let_def False if_False)
    show ?thesis
      unfolding eq using "2.IH"(2) [OF refl refl False] by simp
  qed
qed

lemma removeHeadings_shrinks:
  "length (removeHeadings lineStart s) \<le> length s
   \<and> (length (removeHeadings lineStart s) = length s \<longrightarrow> removeHeadings lineStart s = s)"
proof (induction lineStart s rule: removeHeadings.induct)
  case (1 lineStart)
  show ?case by simp
next
  case (2 lineStart c cs)
  let ?after = "dropWhile (\<lambda>c. c = CHR ''#'') cs"
  let ?spaces = "takeWhile isWhiteSpace ?after"
  show ?case
  proof (cases "lineStart \<and> c = CHR ''#''")
    case True
    have eq: "removeHeadings lineStart (c # cs)
        = removeHeadings (?spaces \<noteq> [] \<and> isLineTerminator (last ?spaces))
            (dropWhile isWhiteSpace ?after)"
      by (simp only: removeHeadings.simps Let_def if_P [OF True])
    have "length (dropWhile isWhiteSpace ?after) \<le> length ?after"
      by (rule length_dropWhile_le)
    also have "\<dots> \<le> length cs"
      by (rule length_dropWhile_le)
    finally have "length (dropWhile isWhiteSpace ?after) < length (c # cs)"
      by simp
    moreover have "length (removeHeadings (?spaces \<noteq> [] \<and> isLineTerminator (last ?spaces))
                     (dropWhile isWhiteSpace ?after)) \<le> length (dropWhile isWhiteSpace ?after)"
      using "2.IH"(1) [OF True refl refl] by blast
    ultimately have "length (removeHeadings lineStart (c # cs)) < length (c # cs)"
      unfolding eq by linarith
    then show ?thesis by linarith
  next
    case False
    have eq: "removeHeadings lineStart (c # cs) = c # removeHeadings (isLineTerminator c) cs"
      by (simp only: removeHeadings.simps False if_False)
    show ?thesis
      unfolding eq using "2.IH"(2) [OF False] by simp
  qed
qed

lemma collapseNewlines_length: "length (collapseNewlines s) \<le> length s"
proof (induction s rule: collapseNewlines.induct)
  case 1
  show ?case by simp
next
  case (2 c cs)
  let ?run = "takeWhile (\<lambda>c. c = CHR 0x0A) (c # cs)"
  let ?rest = "dropWhile (\<lambda>c. c = CHR 0x0A) (c # cs)"
  show ?case
  proof (cases "3 \<le> length ?run")
    case True
    have eq: "collapseNewlines (c # cs) = CHR 0x0A # CHR 0x0A # collapseNewlines ?rest"
      by (simp only: collapseNewlines.simps True if_True)
    have "length ?run + length ?rest = length (c # cs)"
      by (metis length_append takeWhile_dropWhile_id)
    with True "2.IH"(1) [OF True] show ?thesis
      unfolding eq by simp
  next
    case False
    have eq: "collapseNewlines (c # cs) = c # collapseNewlines cs"
      by (simp only: collapseNewlines.simps False if_False)
    show ?thesis
      unfolding eq using "2.IH"(2) [OF False] by simp
  qed
qed

lemma trim_length: "length (trim s) \<le> length s"
  using sublist_trim by (rule sublist_length_le)

lemma markers_left_unchanged_imp_fixed:
  assumes starts: "removeFenceStarts (stripMarkdownCodeBlocks x) = stripMarkdownCodeBlocks x"
    and ends: "removeFenceEnds (stripMarkdownCodeBlocks x) = stripMarkdownCodeBlocks x"
    and bold: "removeBold (stripMarkdownCodeBlocks x) = stripMarkdownCodeBlocks x"
    and rules: "removeRules True (stripMarkdownCodeBlocks x) = stripMarkdownCodeBlocks x"
    and heads: "removeHeadings True (stripMarkdownCodeBlocks x) = stripMarkdownCodeBlocks x"
  shows "stripMarkdownCodeBlocks (stripMarkdownCodeBlocks x) = stripMarkdownCodeBlocks x"
proof -
  let ?y = "stripMarkdownCodeBlocks x"
  let ?z = "removeHeadings True (removeRules True (removeBold (removeFenceEnds
              (removeFenceStarts x))))"
  have y: "?y = trim (collapseNewlines ?z)"
    by (simp only: stripMarkdownCodeBlocks_def)
  have passes: "removeHeadings True (removeRules True (removeBold (removeFenceEnds
                  (removeFenceStarts ?y)))) = ?y"
    by (simp only: starts ends bold rules heads)
  have "\<not> sublist [CHR 0x0A, CHR 0x0A, CHR 0x0A] ?y"
  proof
    assume "sublist [CHR 0x0A, CHR 0x0A, CHR 0x0A] ?y"
    moreover have "sublist ?y (collapseNewlines ?z)"
      unfolding y by (rule sublist_trim)
    ultimately have "sublist [CHR 0x0A, CHR 0x0A, CHR 0x0A] (collapseNewlines ?z)"
      by (rule sublist_order.order_trans)
    then show False
      using collapseNewlines_no_triple by blast
  qed
  then have collapse: "collapseNewlines ?y = ?y"
    by (rule collapseNewlines_id)
  have "stripMarkdownCodeBlocks ?y = trim (collapseNewlines ?y)"
    unfolding stripMarkdownCodeBlocks_def [of ?y] passes ..
  also have "\<dots> = trim ?y"
    by (simp only: collapse)
  also have "\<dots> = ?y"
    unfolding y by (rule trim_trim)
  finally show ?thesis .
qed

lemma fixed_imp_markers_left_unchanged:
  assumes fixed: "stripMarkdownCodeBlocks y = y"
  shows "removeFenceStarts y = y \<and> removeFenceEnds y = y \<and> removeBold y = y
       \<and> removeRules True y = y \<and> removeHeadings True y = y"
proof -
  let ?a = "removeFenceStarts y"
  let ?b = "removeFenceEnds ?a"
  let ?c = "removeBold ?b"
  let ?d = "removeRules True ?c"
  let ?e = "removeHeadings True ?d"
  have "length y = length (trim (collapseNewlines ?e))"
    using fixed by (simp only: stripMarkdownCodeBlocks_def)
  also have "\<dots> \<le> length (collapseNewlines ?e)"
    by (rule trim_length)
  also have "\<dots> \<le> length ?e"
    by (rule collapseNewlines_length)
  finally have e: "length y \<le> length ?e" .
  have la: "length ?a \<le> length y" and lb: "length ?b \<le> length ?a"
    and lc: "length ?c \<le> length ?b" and ld: "length ?d \<le> length ?c"
    and le: "length ?e \<le> length ?d"
    using removeFenceStarts_shrinks removeFenceEnds_shrinks removeBold_shrinks
      removeRules_shrinks removeHeadings_shrinks by blast+
  have a: "?a = y"
    using removeFenceStarts_shrinks [of y] e la lb lc ld le by linarith
  have b: "removeFenceEnds y = y"
    using removeFenceEnds_shrinks [of ?a] e la lb lc ld le unfolding a by linarith
  have c: "removeBold y = y"
    using removeBold_shrinks [of ?b] e la lb lc ld le unfolding a b by linarith
  have d: "removeRules True y = y"
    using removeRules_shrinks [of True ?c] e la lb lc ld le unfolding a b c by linarith
  have "removeHeadings True y = y"
    using removeHeadings_shrinks [of True ?d] e la lb lc ld le unfolding a b c d by linarith
  with a b c d show ?thesis by blast
qed

lemma sample_code_passes:
  "stripMarkdownCodeBlocks ''/** doc */ let y = x ** 2;'' = ''/** doc */ let y = x ** 2;''"
  "removeFenceStarts ''/** doc */ let y = x ** 2;'' = ''/** doc */ let y = x ** 2;''"
  "removeFenceEnds ''/** doc */ let y = x ** 2;'' = ''/** doc */ let y = x ** 2;''"
  "removeBold ''/** doc */ let y = x ** 2;'' = ''/** doc */ let y = x ** 2;''"
  "removeRules True ''/** doc */ let y = x ** 2;'' = ''/** doc */ let y = x ** 2;''"
  "removeHeadings True ''/** doc */ let y = x ** 2;'' = ''/** doc */ let y = x ** 2;''"
  by code_simp+

text \<open>
  C3 (as amended). Sanitizing the output of the sanitizer again returns it unchanged
  exactly when no marker is left in it, that is, when each of the five replacements of
  markers (opening fences, closing fences, bold markers, horizontal rules, heading
  markers) leaves the output unchanged.
\<close>

theorem sanitize_idempotent_iff_no_marker_left:
  "stripMarkdownCodeBlocks (stripMarkdownCodeBlocks x) = stripMarkdownCodeBlocks x
   \<longleftrightarrow>
     removeFenceStarts (stripMarkdownCodeBlocks x) = stripMarkdownCodeBlocks x
   \<and> removeFenceEnds (stripMarkdownCodeBlocks x) = stripMarkdownCodeBlocks x
   \<and> removeBold (stripMarkdownCodeBlocks x) = stripMarkdownCodeBlocks x
   \<and> removeRules True (stripMarkdownCodeBlocks x) = stripMarkdownCodeBlocks x
   \<and> removeHeadings True (stripMarkdownCodeBlocks x) = stripMarkdownCodeBlocks x"
  using markers_left_unchanged_imp_fixed [of x]
    fixed_imp_markers_left_unchanged [of "stripMarkdownCodeBlocks x"]
  by blast

theorem sanitize_idempotent_iff_no_marker_left_witness:
  "removeFenceStarts (stripMarkdownCodeBlocks ''/** doc */ let y = x ** 2;'')
     = stripMarkdownCodeBlocks ''/** doc */ let y = x ** 2;''
 \<and> removeFenceEnds (stripMarkdownCodeBlocks ''/** doc */ let y = x ** 2;'')
     = stripMarkdownCodeBlocks ''/** doc */ let y = x ** 2;''
 \<and> removeBold (stripMarkdownCodeBlocks ''/** doc */ let y = x ** 2;'')
     = stripMarkdownCodeBlocks ''/** doc */ let y = x ** 2;''
 \<and> removeRules True (stripMarkdownCodeBlocks ''/** doc */ let y = x ** 2;'')
     = stripMarkdownCodeBlocks ''/** doc */ let y = x ** 2;''
 \<and> removeHeadings True (stripMarkdownCodeBlocks ''/** doc */ let y = x ** 2;'')
     = stripMarkdownCodeBlocks ''/** doc */ let y = x ** 2;''
 \<and> stripMarkdownCodeBlocks (stripMarkdownCodeBlocks ''/** doc */ let y = x ** 2;'')
     = stripMarkdownCodeBlocks ''/** doc */ let y = x ** 2;''"
proof -
  have unchanged:
    "removeFenceStarts (stripMarkdownCodeBlocks ''/** doc */ let y = x ** 2;'')
       = stripMarkdownCodeBlocks ''/** doc */ let y = x ** 2;''
   \<and> removeFenceEnds (stripMarkdownCodeBlocks ''/** doc */ let y = x ** 2;'')
       = stripMarkdownCodeBlocks ''/** doc */ let y = x ** 2;''
   \<and> removeBold (stripMarkdownCodeBlocks ''/** doc */ let y = x ** 2;'')
       = stripMarkdownCodeBlocks ''/** doc */ let y = x ** 2;''
   \<and> removeRules True (stripMarkdownCodeBlocks ''/** doc */ let y = x ** 2;'')
       = stripMarkdownCodeBlocks ''/** doc */ let y = x ** 2;''
   \<and> removeHeadings True (stripMarkdownCodeBlocks ''/** doc */ let y = x ** 2;'')
       = stripMarkdownCodeBlocks ''/** doc */ let y = x ** 2;''"
    by (simp only: sample_code_passes simp_thms)
  show ?thesis
    using unchanged sanitize_idempotent_iff_no_marker_left [of "''/** doc */ let y = x ** 2;''"]
    by blast
qed

text \<open>
  A condition on the characters of the output that is enough: no three backticks, two
  asterisks or three hyphens in a row, and no line that begins with \<open>#\<close>.
\<close>

lemma marker_free_output_is_fixed:
  assumes "markerFree (stripMarkdownCodeBlocks x)"
  shows "stripMarkdownCodeBlocks (stripMarkdownCodeBlocks x) = stripMarkdownCodeBlocks x"
proof -
  let ?y = "stripMarkdownCodeBlocks x"
  from assms have fence: "\<not> sublist ''```'' ?y" and bold: "\<not> sublist ''**'' ?y"
    and rule: "\<not> sublist ''---'' ?y" and head: "True \<longrightarrow> \<not> prefix ''#'' ?y"
    and lf: "\<not> sublist [CHR 0x0A, CHR ''#''] ?y" and cr: "\<not> sublist [CHR 0x0D, CHR ''#''] ?y"
    unfolding markerFree_def by blast+
  show ?thesis
    by (rule markers_left_unchanged_imp_fixed)
       (simp_all only: removeFenceStarts_id [OF fence] removeFenceEnds_id [OF fence]
          removeBold_id [OF bold] removeRules_id [OF rule] removeHeadings_id [OF head lf cr])
qed

end
